theory Spec2Isabelle
  imports Main "HOL-Library.Char_ord" "HOL-Library.List_Lexorder" "HOL-Library.Sublist"
begin

section \<open>The translation-key audit script \<^verbatim>\<open>extract_translations.py\<close>\<close>

text \<open>
  The script reads two texts, the markup \<^verbatim>\<open>html_content\<close> and the catalog
  \<^verbatim>\<open>script_content\<close>, and works on them with the functions \<^verbatim>\<open>re.findall\<close>
  and \<^verbatim>\<open>re.search\<close> of Python's regular-expression library. A Python \<^verbatim>\<open>str\<close> is a
  sequence of code points; a text is modelled as a \<^typ>\<open>string\<close>, a \<^typ>\<open>char\<close> standing for
  the code point of the same number, so the model covers the texts whose code points are
  below 256. Strings compare as Python compares them: lexicographically by code point
  (the orders of \<open>Char_ord\<close> and \<open>List_Lexorder\<close>).
\<close>

subsection \<open>The fragment of regular expressions the script uses\<close>

text \<open>
  The character classes of the script's patterns: \<^verbatim>\<open>\w\<close>, \<^verbatim>\<open>\s\<close> and the negated
  one-character sets \<^verbatim>\<open>[^"]\<close> and \<^verbatim>\<open>[^}]\<close>. The patterns are \<^verbatim>\<open>str\<close> patterns compiled
  without \<^verbatim>\<open>re.ASCII\<close>, so \<^verbatim>\<open>\w\<close> and \<^verbatim>\<open>\s\<close> are the Unicode classes; below 256 these
  are the code points listed here. A negated set matches every other character, the
  newline included.
\<close>

definition word_char :: "char \<Rightarrow> bool" where
  "word_char c =
     (let n = (of_char c :: nat) in
        (0x30 \<le> n \<and> n \<le> 0x39) \<or> (0x41 \<le> n \<and> n \<le> 0x5A) \<or> n = 0x5F \<or>
        (0x61 \<le> n \<and> n \<le> 0x7A) \<or> n = 0xAA \<or> n = 0xB2 \<or> n = 0xB3 \<or> n = 0xB5 \<or>
        n = 0xB9 \<or> n = 0xBA \<or> (0xBC \<le> n \<and> n \<le> 0xBE) \<or> (0xC0 \<le> n \<and> n \<le> 0xD6) \<or>
        (0xD8 \<le> n \<and> n \<le> 0xF6) \<or> 0xF8 \<le> n)"

definition space_char :: "char \<Rightarrow> bool" where
  "space_char c =
     (let n = (of_char c :: nat) in
        (0x09 \<le> n \<and> n \<le> 0x0D) \<or> (0x1C \<le> n \<and> n \<le> 0x20) \<or> n = 0x85 \<or> n = 0xA0)"

datatype cls = Word | Space | Not char

fun in_cls :: "cls \<Rightarrow> char \<Rightarrow> bool" where
  "in_cls Word c = word_char c"
| "in_cls Space c = space_char c"
| "in_cls (Not d) c = (c \<noteq> d)"

text \<open>
  A pattern is a sequence of items: a literal character, a greedy repetition \<^verbatim>\<open>X*\<close> or
  \<^verbatim>\<open>X+\<close> of a character class, and the two parentheses of the capturing group (each of
  the script's patterns has exactly one group).
\<close>

datatype item = Chr char | Star cls | Plus cls | GOpen | GClose

type_synonym regex = "item list"

text \<open>
  \<open>rmatch p s g0 g\<close> matches the pattern \<open>p\<close> at the start of \<open>s\<close>, as the backtracking
  matcher of \<^verbatim>\<open>re\<close> does: a greedy repetition first takes one more character and everything
  after it is tried, and only when that fails is the rest of the pattern tried at the current
  position. \<open>g0\<close> is the input as it was at the opening parenthesis and \<open>g\<close> the text of the
  group. The result is the group's text and the input left after the match.
\<close>

fun rmatch :: "regex \<Rightarrow> string \<Rightarrow> string \<Rightarrow> string \<Rightarrow> (string \<times> string) option" where
  "rmatch [] s g0 g = Some (g, s)"
| "rmatch (Chr c # r) [] g0 g = None"
| "rmatch (Chr c # r) (x # xs) g0 g = (if x = c then rmatch r xs g0 g else None)"
| "rmatch (GOpen # r) s g0 g = rmatch r s s g"
| "rmatch (GClose # r) s g0 g = rmatch r s g0 (take (length g0 - length s) g0)"
| "rmatch (Plus k # r) [] g0 g = None"
| "rmatch (Plus k # r) (x # xs) g0 g =
     (if in_cls k x then rmatch (Star k # r) xs g0 g else None)"
| "rmatch (Star k # r) [] g0 g = rmatch r [] g0 g"
| "rmatch (Star k # r) (x # xs) g0 g =
     (if in_cls k x
      then (case rmatch (Star k # r) xs g0 g of
              Some res \<Rightarrow> Some res
            | None \<Rightarrow> rmatch r (x # xs) g0 g)
      else rmatch r (x # xs) g0 g)"

text \<open>\<^verbatim>\<open>pattern.match\<close> at one position of the text.\<close>

definition match_at :: "regex \<Rightarrow> string \<Rightarrow> (string \<times> string) option" where
  "match_at p s = rmatch p s s []"

text \<open>
  \<^verbatim>\<open>re.search(p, s)\<close>: the match at the leftmost position that has one, \<open>None\<close> when no
  position has. The value is \<^verbatim>\<open>group(1)\<close> of the match object.
\<close>

fun re_search :: "regex \<Rightarrow> string \<Rightarrow> string option" where
  "re_search p [] = map_option fst (match_at p [])"
| "re_search p (x # xs) =
     (case match_at p (x # xs) of
        Some (g, rest) \<Rightarrow> Some g
      | None \<Rightarrow> re_search p xs)"

text \<open>
  \<^verbatim>\<open>re.findall(p, s)\<close> for a pattern with one group: the group's text of every match,
  scanning from left to right, the scan resuming where the last match ended. After a match
  that consumed nothing the scan moves on by one character; none of the script's patterns
  has such a match.
\<close>

function re_findall :: "regex \<Rightarrow> string \<Rightarrow> string list" where
  "re_findall p [] = (case match_at p [] of Some (g, rest) \<Rightarrow> [g] | None \<Rightarrow> [])"
| "re_findall p (x # xs) =
     (case match_at p (x # xs) of
        Some (g, rest) \<Rightarrow>
          g # re_findall p (if length rest < length (x # xs) then rest else xs)
      | None \<Rightarrow> re_findall p xs)"
  by pat_completeness auto
termination
  by (relation "measure (\<lambda>(p, s). length s)") (auto split: if_splits)

subsection \<open>The script\<close>

text \<open>
  Lines 9 and 13: the two attribute patterns, \<^verbatim>\<open>data-translate="([^"]+)"\<close> and
  \<^verbatim>\<open>data-translate-placeholder="([^"]+)"\<close>.
\<close>

definition translate_pattern :: regex where
  \<open>translate_pattern =
     map Chr ''data-translate="'' @ [GOpen, Plus (Not (CHR ''"'')), GClose, Chr (CHR ''"'')]\<close>

definition placeholder_pattern :: regex where
  \<open>placeholder_pattern =
     map Chr ''data-translate-placeholder="'' @
     [GOpen, Plus (Not (CHR ''"'')), GClose, Chr (CHR ''"'')]\<close>

definition translate_matches :: "string \<Rightarrow> string list" where
  "translate_matches html_content = re_findall translate_pattern html_content"

definition placeholder_matches :: "string \<Rightarrow> string list" where
  "placeholder_matches html_content = re_findall placeholder_pattern html_content"

text \<open>Lines 17 and 18: \<^verbatim>\<open>set(translate_matches + placeholder_matches)\<close> and \<^verbatim>\<open>sorted\<close>.\<close>

definition all_keys :: "string \<Rightarrow> string set" where
  "all_keys html_content = set (translate_matches html_content @ placeholder_matches html_content)"

definition sorted_keys :: "string \<Rightarrow> string list" where
  "sorted_keys html_content = sorted_list_of_set (all_keys html_content)"

text \<open>
  The three locales the script checks, in the order of its sections, each with the label of
  its block in the catalog.
\<close>

datatype lang = EN | ES | PL

fun label :: "lang \<Rightarrow> string" where
  "label EN = ''en''"
| "label ES = ''es''"
| "label PL = ''pl''"

text \<open>Lines 34, 56 and 78: \<^verbatim>\<open>en:\s*{([^}]+)}\<close> and the same for \<^verbatim>\<open>es\<close> and \<^verbatim>\<open>pl\<close>.\<close>

definition locale_pattern :: "lang \<Rightarrow> regex" where
  "locale_pattern l =
     map Chr (label l @ '':'') @
     [Star Space, Chr (CHR ''{''), GOpen, Plus (Not (CHR ''}'')), GClose, Chr (CHR ''}'')]"

text \<open>Lines 38, 60 and 82: the pattern \<^verbatim>\<open>(\w+):\<close> of a key.\<close>

definition key_pattern :: regex where
  "key_pattern = [GOpen, Plus Word, GClose, Chr (CHR '':'')]"

text \<open>
  \<^verbatim>\<open>en_match\<close> and \<^verbatim>\<open>en_keys\<close>. The keys exist only inside \<^verbatim>\<open>if en_match:\<close>, so they are
  \<open>None\<close> when the search found no block.
\<close>

definition locale_match :: "lang \<Rightarrow> string \<Rightarrow> string option" where
  "locale_match l script_content = re_search (locale_pattern l) script_content"

definition locale_keys :: "lang \<Rightarrow> string \<Rightarrow> string list option" where
  "locale_keys l script_content =
     (case locale_match l script_content of
        None \<Rightarrow> None
      | Some content \<Rightarrow> Some (re_findall key_pattern content))"

text \<open>
  Lines 43 to 46: the loop that collects the missing keys; \<open>acc\<close> is \<^verbatim>\<open>missing_keys\<close> as
  built so far.
\<close>

fun collect_missing :: "string list \<Rightarrow> string list \<Rightarrow> string list \<Rightarrow> string list" where
  "collect_missing [] en_keys acc = acc"
| "collect_missing (key # rest) en_keys acc =
     collect_missing rest en_keys (if key \<notin> set en_keys then acc @ [key] else acc)"

definition missing_keys :: "lang \<Rightarrow> string \<Rightarrow> string \<Rightarrow> string list option" where
  "missing_keys l html_content script_content =
     (case locale_keys l script_content of
        None \<Rightarrow> None
      | Some en_keys \<Rightarrow> Some (collect_missing (sorted_keys html_content) en_keys []))"

text \<open>
  What the script prints, one constructor for each \<^verbatim>\<open>print\<close> statement: the heading, a key
  (the same format in every listing), the total, the notice before the catalog is checked,
  and for a locale the number of keys found, the heading of its missing keys with their
  number, and the message that every key has a translation.
\<close>

datatype line =
    Heading
  | KeyLine string
  | TotalLine nat
  | Checking
  | KeysFound lang nat
  | MissingHeader lang nat
  | AllPresent lang

text \<open>One of the three sections (lines 34 to 53, 56 to 75, 78 to 97).\<close>

definition check_locale :: "lang \<Rightarrow> string list \<Rightarrow> string \<Rightarrow> line list" where
  "check_locale l keys script_content =
     (case locale_match l script_content of
        None \<Rightarrow> []
      | Some content \<Rightarrow>
          (let en_keys = re_findall key_pattern content;
               missing = collect_missing keys en_keys []
           in KeysFound l (length en_keys) #
              (if missing \<noteq> [] then MissingHeader l (length missing) # map KeyLine missing
               else [AllPresent l])))"

text \<open>The whole script, from the two texts to the lines printed.\<close>

definition main :: "string \<Rightarrow> string \<Rightarrow> line list" where
  "main html_content script_content =
     (let keys = sorted_keys html_content
      in Heading # map KeyLine keys @ [TotalLine (length keys), Checking] @
         check_locale EN keys script_content @
         check_locale ES keys script_content @
         check_locale PL keys script_content)"

subsection \<open>The matches of the script's patterns, without backtracking\<close>

text \<open>
  Two functions that are not in the script: what a group \<^verbatim>\<open>(X+)c\<close> matches when the
  character \<open>c\<close> is not in the class \<open>X\<close> (the longest run of \<open>X\<close>, which must be followed by
  \<open>c\<close>), and what \<^verbatim>\<open>\s*{([^}]+)}\<close> matches. The lemmas below prove that the backtracking
  matcher computes them on the script's patterns.
\<close>

definition group_at :: "cls \<Rightarrow> char \<Rightarrow> string \<Rightarrow> (string \<times> string) option" where
  "group_at k c s =
     (case dropWhile (in_cls k) s of
        [] \<Rightarrow> None
      | y # rest \<Rightarrow>
          if y = c \<and> takeWhile (in_cls k) s \<noteq> [] then Some (takeWhile (in_cls k) s, rest)
          else None)"

definition block_at :: "string \<Rightarrow> (string \<times> string) option" where
  "block_at s =
     (case dropWhile space_char s of
        [] \<Rightarrow> None
      | y # t \<Rightarrow> if y = CHR ''{'' then group_at (Not (CHR ''}'')) (CHR ''}'') t else None)"

subsection \<open>The texts of the specification's scenario\<close>

text \<open>
  A markup with the two attributes and a catalog whose \<^verbatim>\<open>en\<close> block has the one entry
  \<^verbatim>\<open>title: "Hello"\<close>.
\<close>

definition scenario_markup :: string where
  \<open>scenario_markup = ''<h1 data-translate="title"></h1><input data-translate-placeholder="search">''\<close>

definition scenario_catalog :: string where
  \<open>scenario_catalog = ''const translations = { en: { title: "Hello" } };''\<close>

text \<open>A markup whose one key has a hyphen.\<close>

definition hyphen_markup :: string where
  \<open>hyphen_markup = ''<a data-translate="nav-home">Home</a>''\<close>


text \<open>A catalog with a block for \<^verbatim>\<open>es\<close> and none for \<^verbatim>\<open>en\<close> or \<^verbatim>\<open>pl\<close>.\<close>

definition spanish_only_catalog :: string where
  \<open>spanish_only_catalog = ''const translations = { es: { title: "Hola" } };''\<close>


text \<open>
  Two catalogs whose \<^verbatim>\<open>en\<close> block has a nested object before the entry \<^verbatim>\<open>title\<close>; in the
  first the nested object has a key of the same name.
\<close>

definition nested_catalog :: string where
  \<open>nested_catalog = ''en: { nav: { title: "Menu" }, title: "Hello" }''\<close>

definition truncated_catalog :: string where
  \<open>truncated_catalog = ''en: { nav: { home: "Home" }, title: "Hello" }''\<close>

text \<open>
  A markup whose first attribute has lost its closing quote, followed by a well-formed
  attribute.
\<close>

definition swallowing_markup :: string where
  \<open>swallowing_markup = ''<a data-translate="abc><b data-translate="def">''\<close>

text \<open>A markup whose one attribute has an empty value.\<close>

definition plain_markup :: string where
  \<open>plain_markup = ''<p data-translate="">x</p>''\<close>

section \<open>Properties of the matcher\<close>

lemma rmatch_literal:
  "rmatch (map Chr lit @ r) s g0 g =
     (if prefix lit s then rmatch r (drop (length lit) s) g0 g else None)"
proof (induction lit arbitrary: s)
  case Nil
  then show ?case by simp
next
  case (Cons a lit)
  then show ?case by (cases s) auto
qed

lemma rmatch_Star_skip:
  assumes "\<And>x xs g0 g. in_cls k x \<Longrightarrow> rmatch r (x # xs) g0 g = None"
  shows "rmatch (Star k # r) s g0 g = rmatch r (dropWhile (in_cls k) s) g0 g"
proof (induction s)
  case Nil
  then show ?case by simp
next
  case (Cons x xs)
  show ?case
  proof (cases "in_cls k x")
    case True
    with Cons assms [of x xs g0 g] show ?thesis
      by (simp split: option.splits)
  next
    case False
    then show ?thesis by simp
  qed
qed

lemma take_length_dropWhile:
  "take (length xs - length (dropWhile P xs)) xs = takeWhile P xs"
proof -
  have "length xs - length (dropWhile P xs) = length (takeWhile P xs)"
    by (metis add_diff_cancel_right' length_append takeWhile_dropWhile_id)
  then show ?thesis
    by (metis append_eq_conv_conj takeWhile_dropWhile_id)
qed

lemma rmatch_group:
  assumes "\<not> in_cls k c"
  shows "rmatch [GOpen, Plus k, GClose, Chr c] s g0 g = group_at k c s"
proof (cases s)
  case Nil
  then show ?thesis by (simp add: group_at_def)
next
  case (Cons x xs)
  show ?thesis
  proof (cases "in_cls k x")
    case False
    with Cons show ?thesis by (simp add: group_at_def)
  next
    case True
    have fail: "\<And>y ys h0 h. in_cls k y \<Longrightarrow> rmatch [GClose, Chr c] (y # ys) h0 h = None"
      using assms by auto
    have "rmatch [GOpen, Plus k, GClose, Chr c] s g0 g = rmatch (Star k # [GClose, Chr c]) xs s g"
      using Cons True by simp
    also have "\<dots> = rmatch [GClose, Chr c] (dropWhile (in_cls k) xs) s g"
      by (rule rmatch_Star_skip) (rule fail)
    also have "\<dots> = rmatch [Chr c] (dropWhile (in_cls k) s) s (takeWhile (in_cls k) s)"
      using Cons True take_length_dropWhile [of s "in_cls k"] by simp
    also have "\<dots> = group_at k c s"
    proof -
      define d where "d = dropWhile (in_cls k) s"
      define v where "v = takeWhile (in_cls k) s"
      have "v \<noteq> []"
        using \<open>s = x # xs\<close> True by (simp add: v_def)
      then have "rmatch [Chr c] d s v =
          (case d of [] \<Rightarrow> None | y # rest \<Rightarrow> if y = c \<and> v \<noteq> [] then Some (v, rest) else None)"
        by (cases d) simp_all
      then show ?thesis
        by (simp only: group_at_def d_def v_def)
    qed
    finally show ?thesis .
  qed
qed

lemma group_at_SomeD:
  assumes "group_at k c s = Some (v, rest)"
  shows "s = v @ c # rest \<and> v \<noteq> [] \<and> (\<forall>x\<in>set v. in_cls k x)"
proof -
  from assms obtain y where d: "dropWhile (in_cls k) s = y # rest" and y: "y = c"
    and v: "v = takeWhile (in_cls k) s" and ne: "takeWhile (in_cls k) s \<noteq> []"
    by (auto simp: group_at_def split: list.splits if_splits)
  have "s = takeWhile (in_cls k) s @ dropWhile (in_cls k) s" by simp
  with d y v have "s = v @ c # rest" by simp
  moreover have "\<forall>x\<in>set v. in_cls k x" using v by (auto dest: set_takeWhileD)
  ultimately show ?thesis using ne v by simp
qed

lemma group_at_SomeI:
  assumes "\<not> in_cls k c" "v \<noteq> []" "\<forall>x\<in>set v. in_cls k x"
  shows "group_at k c (v @ c # rest) = Some (v, rest)"
proof -
  have "takeWhile (in_cls k) (v @ c # rest) = v"
    using assms by (simp add: takeWhile_append2)
  moreover have "dropWhile (in_cls k) (v @ c # rest) = c # rest"
    using assms by (simp add: dropWhile_append2)
  ultimately show ?thesis using assms by (simp add: group_at_def)
qed

lemma group_at_shorter:
  "group_at k c s = Some (v, rest) \<Longrightarrow> length rest < length s"
  by (drule group_at_SomeD) simp

lemma rmatch_suffix:
  "rmatch p s g0 g = Some (g', rest) \<Longrightarrow> suffix rest s"
  by (induction p s g0 g rule: rmatch.induct)
    (auto simp: suffix_Cons split: if_splits option.splits)

lemma match_at_suffix:
  "match_at p s = Some (g, rest) \<Longrightarrow> suffix rest s"
  unfolding match_at_def by (rule rmatch_suffix)

lemma re_findall_mem:
  "g \<in> set (re_findall p s) \<Longrightarrow> \<exists>s' rest. suffix s' s \<and> match_at p s' = Some (g, rest)"
proof (induction p s rule: re_findall.induct)
  case (1 p)
  then show ?case by (cases "match_at p []") auto
next
  case (2 p x xs)
  show ?case
  proof (cases "match_at p (x # xs)")
    case None
    with 2 obtain s' rest where "suffix s' xs" "match_at p s' = Some (g, rest)"
      by auto
    then show ?thesis by (auto simp: suffix_Cons)
  next
    case (Some res)
    obtain g' rest where res: "res = (g', rest)" by (cases res)
    let ?next = "if length rest < length (x # xs) then rest else xs"
    have nxt: "suffix ?next (x # xs)"
      using match_at_suffix [of p "x # xs" g' rest] Some res by (simp add: suffix_Cons)
    from "2.prems" Some res have "g = g' \<or> g \<in> set (re_findall p ?next)"
      by simp
    then show ?thesis
    proof
      assume "g = g'"
      with Some res show ?thesis by blast
    next
      assume "g \<in> set (re_findall p ?next)"
      with "2.IH"(2) [OF Some res [symmetric]] obtain s' r'
        where "suffix s' ?next" "match_at p s' = Some (g, r')"
        by blast
      with nxt show ?thesis by (meson suffix_order.trans)
    qed
  qed
qed

lemma re_search_SomeD:
  "re_search p s = Some g \<Longrightarrow>
     \<exists>pre s' rest. s = pre @ s' \<and> match_at p s' = Some (g, rest) \<and>
       (\<forall>i<length pre. match_at p (drop i s) = None)"
proof (induction s)
  case Nil
  then show ?case by (cases "match_at p []") auto
next
  case (Cons x xs)
  show ?case
  proof (cases "match_at p (x # xs)")
    case (Some res)
    with Cons.prems have "match_at p (x # xs) = Some (g, snd res)"
      by (cases res) simp
    then have "x # xs = [] @ (x # xs) \<and> match_at p (x # xs) = Some (g, snd res) \<and>
        (\<forall>i<length ([]::string). match_at p (drop i (x # xs)) = None)"
      by simp
    then show ?thesis by blast
  next
    case None
    with Cons.prems have "re_search p xs = Some g" by simp
    from Cons.IH [OF this] obtain pre s' rest where
      xs: "xs = pre @ s'" and m: "match_at p s' = Some (g, rest)"
      and no: "\<forall>i<length pre. match_at p (drop i xs) = None"
      by blast
    have "\<forall>i<length (x # pre). match_at p (drop i (x # xs)) = None"
    proof (intro allI impI)
      fix i assume "i < length (x # pre)"
      then show "match_at p (drop i (x # xs)) = None"
        using None no by (cases i) auto
    qed
    with xs m have "x # xs = (x # pre) @ s' \<and> match_at p s' = Some (g, rest) \<and>
        (\<forall>i<length (x # pre). match_at p (drop i (x # xs)) = None)"
      by simp
    then show ?thesis by blast
  qed
qed

lemma re_search_None_iff:
  "re_search p s = None \<longleftrightarrow> (\<forall>s'. suffix s' s \<longrightarrow> match_at p s' = None)"
proof (induction s)
  case Nil
  then show ?case by simp
next
  case (Cons x xs)
  then show ?case
    by (auto simp: suffix_Cons split: option.splits)
qed

lemma not_word_colon: "\<not> in_cls Word (CHR '':'')"
  by (simp add: word_char_def)

lemma space_not_brace: "in_cls Space x \<Longrightarrow> x \<noteq> CHR ''{''"
  by (auto simp: space_char_def)

lemma match_at_attr:
  "match_at (map Chr lit @ [GOpen, Plus (Not q), GClose, Chr q]) s =
     (if prefix lit s then group_at (Not q) q (drop (length lit) s) else None)"
  by (simp add: match_at_def rmatch_literal rmatch_group del: rmatch.simps)

lemma match_at_key: "match_at key_pattern s = group_at Word (CHR '':'') s"
  unfolding match_at_def key_pattern_def by (rule rmatch_group) (rule not_word_colon)

lemma match_at_locale:
  "match_at (locale_pattern l) s =
     (if prefix (label l @ '':'') s then block_at (drop (length (label l @ '':'')) s) else None)"
proof -
  let ?r = "[Chr (CHR ''{''), GOpen, Plus (Not (CHR ''}'')), GClose, Chr (CHR ''}'')]"
  have fail: "\<And>x xs g0 g. in_cls Space x \<Longrightarrow> rmatch ?r (x # xs) g0 g = None"
    using space_not_brace by simp
  have "rmatch (Star Space # ?r) t g0 g = block_at t" for t g0 g
  proof -
    have "rmatch (Star Space # ?r) t g0 g = rmatch ?r (dropWhile (in_cls Space) t) g0 g"
      by (rule rmatch_Star_skip) (rule fail)
    also have "in_cls Space = space_char" by (rule ext) simp
    finally have "rmatch (Star Space # ?r) t g0 g = rmatch ?r (dropWhile space_char t) g0 g" .
    moreover have "rmatch ?r d g0 g =
        (case d of [] \<Rightarrow> None
         | y # t \<Rightarrow> if y = CHR ''{'' then group_at (Not (CHR ''}'')) (CHR ''}'') t else None)" for d
      by (cases d) (simp_all add: rmatch_group del: rmatch.simps(4))
    ultimately show ?thesis
      by (simp only: block_at_def)
  qed
  then have star: "rmatch (Star Space # ?r) t s [] = block_at t" for t .
  have "match_at (locale_pattern l) s = rmatch (map Chr (label l @ '':'') @ (Star Space # ?r)) s s []"
    by (simp only: match_at_def locale_pattern_def)
  also have "\<dots> = (if prefix (label l @ '':'') s
      then rmatch (Star Space # ?r) (drop (length (label l @ '':'')) s) s [] else None)"
    by (rule rmatch_literal)
  finally show ?thesis by (simp only: star)
qed

lemma re_findall_attr:
  assumes "g \<in> set (re_findall (map Chr lit @ [GOpen, Plus (Not q), GClose, Chr q]) s)"
  shows "g \<noteq> [] \<and> q \<notin> set g \<and> (\<exists>pre post. s = pre @ lit @ g @ q # post)"
proof -
  from re_findall_mem [OF assms] obtain s' rest where
    suf: "suffix s' s" and m: "match_at (map Chr lit @ [GOpen, Plus (Not q), GClose, Chr q]) s' = Some (g, rest)"
    by blast
  from m have pre: "prefix lit s'" and grp: "group_at (Not q) q (drop (length lit) s') = Some (g, rest)"
    by (auto simp: match_at_attr split: if_splits)
  from group_at_SomeD [OF grp] have d: "drop (length lit) s' = g @ q # rest"
    and ne: "g \<noteq> []" and nq: "\<forall>x\<in>set g. in_cls (Not q) x"
    by auto
  from pre d have "s' = lit @ g @ q # rest"
    by (metis append_take_drop_id prefix_def append_eq_conv_conj)
  moreover from suf obtain p where "s = p @ s'" by (auto simp: suffix_def)
  ultimately have "s = p @ lit @ g @ q # rest" by simp
  with ne nq show ?thesis by auto
qed

lemma translate_matches_facts:
  assumes "k \<in> set (translate_matches html)"
  shows \<open>k \<noteq> [] \<and> CHR ''"'' \<notin> set k \<and>
    (\<exists>pre post. html = pre @ ''data-translate="'' @ k @ CHR ''"'' # post)\<close>
  using assms unfolding translate_matches_def translate_pattern_def by (rule re_findall_attr)

lemma placeholder_matches_facts:
  assumes "k \<in> set (placeholder_matches html)"
  shows \<open>k \<noteq> [] \<and> CHR ''"'' \<notin> set k \<and>
    (\<exists>pre post. html = pre @ ''data-translate-placeholder="'' @ k @ CHR ''"'' # post)\<close>
  using assms unfolding placeholder_matches_def placeholder_pattern_def by (rule re_findall_attr)

section \<open>Properties of the script\<close>

lemma collect_missing_filter:
  "collect_missing keys en_keys acc = acc @ filter (\<lambda>key. key \<notin> set en_keys) keys"
  by (induction keys arbitrary: acc) auto

lemma finite_all_keys: "finite (all_keys html_content)"
  by (simp add: all_keys_def)

lemma set_sorted_keys: "set (sorted_keys html_content) = all_keys html_content"
  by (simp add: sorted_keys_def finite_all_keys)

lemma sorted_sorted_keys: "sorted (sorted_keys html_content)"
  by (simp add: sorted_keys_def)

lemma distinct_sorted_keys: "distinct (sorted_keys html_content)"
  by (simp add: sorted_keys_def)

lemma locale_keys_Some_iff:
  "locale_keys l s = Some defined \<longleftrightarrow>
     (\<exists>content. locale_match l s = Some content \<and> defined = re_findall key_pattern content)"
  by (auto simp: locale_keys_def split: option.splits)

lemma locale_keys_None_iff: "locale_keys l s = None \<longleftrightarrow> locale_match l s = None"
  by (simp add: locale_keys_def split: option.splits)

lemma missing_keys_Some:
  "locale_keys l s = Some defined \<Longrightarrow>
     missing_keys l h s = Some (filter (\<lambda>key. key \<notin> set defined) (sorted_keys h))"
  by (simp add: missing_keys_def collect_missing_filter)

lemma missing_keys_None_iff: "missing_keys l h s = None \<longleftrightarrow> locale_match l s = None"
  by (simp add: missing_keys_def locale_keys_def split: option.splits)

lemma block_at_SomeD:
  assumes "block_at t = Some (content, rest)"
  shows "\<exists>ws. t = ws @ CHR ''{'' # content @ CHR ''}'' # rest \<and> (\<forall>x\<in>set ws. space_char x) \<and>
           content \<noteq> [] \<and> CHR ''}'' \<notin> set content"
proof -
  from assms obtain u where d: "dropWhile space_char t = CHR ''{'' # u"
    and g: "group_at (Not (CHR ''}'')) (CHR ''}'') u = Some (content, rest)"
    by (auto simp: block_at_def split: list.splits if_splits)
  from group_at_SomeD [OF g] have u: "u = content @ CHR ''}'' # rest" and ne: "content \<noteq> []"
    and nb: "CHR ''}'' \<notin> set content"
    by auto
  have "t = takeWhile space_char t @ dropWhile space_char t" by simp
  with d u have "t = takeWhile space_char t @ CHR ''{'' # content @ CHR ''}'' # rest" by simp
  moreover have "\<forall>x\<in>set (takeWhile space_char t). space_char x"
    by (auto dest: set_takeWhileD)
  ultimately show ?thesis using ne nb by blast
qed

lemma block_at_SomeI:
  assumes "\<forall>x\<in>set ws. space_char x" "content \<noteq> []" "CHR ''}'' \<notin> set content"
  shows "block_at (ws @ CHR ''{'' # content @ CHR ''}'' # rest) = Some (content, rest)"
proof -
  have "\<not> space_char (CHR ''{'')" by (simp add: space_char_def)
  with assms(1) have "dropWhile space_char (ws @ CHR ''{'' # content @ CHR ''}'' # rest) =
      CHR ''{'' # content @ CHR ''}'' # rest"
    by (simp add: dropWhile_append2)
  moreover have "group_at (Not (CHR ''}'')) (CHR ''}'') (content @ CHR ''}'' # rest) = Some (content, rest)"
    using assms(2,3) by (intro group_at_SomeI) auto
  ultimately show ?thesis by (simp add: block_at_def)
qed

lemma match_at_locale_SomeD:
  assumes "match_at (locale_pattern l) s = Some (content, rest)"
  shows "\<exists>ws. s = label l @ '':'' @ ws @ CHR ''{'' # content @ CHR ''}'' # rest \<and>
           (\<forall>x\<in>set ws. space_char x) \<and> content \<noteq> [] \<and> CHR ''}'' \<notin> set content"
proof -
  from assms have p: "prefix (label l @ '':'') s"
    and b: "block_at (drop (length (label l @ '':'')) s) = Some (content, rest)"
    by (auto simp: match_at_locale split: if_splits)
  from block_at_SomeD [OF b] obtain ws where
    d: "drop (length (label l @ '':'')) s = ws @ CHR ''{'' # content @ CHR ''}'' # rest"
    and rest: "\<forall>x\<in>set ws. space_char x" "content \<noteq> []" "CHR ''}'' \<notin> set content"
    by blast
  from p obtain t where s: "s = (label l @ '':'') @ t" by (auto simp: prefix_def)
  then have "drop (length (label l @ '':'')) s = t" by simp
  with d s have "s = label l @ '':'' @ ws @ CHR ''{'' # content @ CHR ''}'' # rest" by simp
  with rest show ?thesis by blast
qed

lemma match_at_locale_SomeI:
  assumes "\<forall>x\<in>set ws. space_char x" "content \<noteq> []" "CHR ''}'' \<notin> set content"
  shows "match_at (locale_pattern l) (label l @ '':'' @ ws @ CHR ''{'' # content @ CHR ''}'' # rest) =
           Some (content, rest)"
proof -
  have "label l @ '':'' @ ws @ CHR ''{'' # content @ CHR ''}'' # rest =
      (label l @ '':'') @ (ws @ CHR ''{'' # content @ CHR ''}'' # rest)"
    by simp
  then show ?thesis
    using block_at_SomeI [OF assms, of rest]
    by (simp only: match_at_locale prefixI append_eq_conv_conj if_True drop_append length_append)
      (simp add: prefix_def)
qed

lemma locale_match_SomeD:
  assumes "locale_match l s = Some content"
  shows "\<exists>pre ws post. s = pre @ label l @ '':'' @ ws @ CHR ''{'' # content @ CHR ''}'' # post \<and>
           (\<forall>x\<in>set ws. space_char x) \<and> content \<noteq> [] \<and> CHR ''}'' \<notin> set content \<and>
           (\<forall>i<length pre. match_at (locale_pattern l) (drop i s) = None)"
proof -
  from re_search_SomeD [OF assms [unfolded locale_match_def]] obtain pre s' rest where
    s: "s = pre @ s'" and m: "match_at (locale_pattern l) s' = Some (content, rest)"
    and no: "\<forall>i<length pre. match_at (locale_pattern l) (drop i s) = None"
    by blast
  from match_at_locale_SomeD [OF m] s no show ?thesis by blast
qed

lemma key_pattern_mem:
  assumes "k \<in> set (re_findall key_pattern content)"
  shows "k \<noteq> [] \<and> (\<forall>c\<in>set k. word_char c) \<and> (\<exists>pre post. content = pre @ k @ CHR '':'' # post)"
proof -
  from re_findall_mem [OF assms] obtain s' rest where
    suf: "suffix s' content" and m: "match_at key_pattern s' = Some (k, rest)"
    by blast
  from m have "group_at Word (CHR '':'') s' = Some (k, rest)" by (simp add: match_at_key)
  from group_at_SomeD [OF this] have "s' = k @ CHR '':'' # rest" "k \<noteq> []" "\<forall>x\<in>set k. word_char x"
    by auto
  moreover from suf obtain p where "content = p @ s'" by (auto simp: suffix_def)
  ultimately show ?thesis by blast
qed

lemma key_pattern_sublist:
  "k \<in> set (re_findall key_pattern content) \<Longrightarrow> sublist (k @ '':'') content"
  by (drule key_pattern_mem) (auto simp: sublist_def)

lemma collect_missing_sorted_list_of_set:
  assumes "finite R"
  shows "collect_missing (sorted_list_of_set R) defined [] = sorted_list_of_set (R - set defined)"
proof -
  let ?m = "filter (\<lambda>key. key \<notin> set defined) (sorted_list_of_set R)"
  have "sorted ?m" by (rule sorted_wrt_filter) simp
  moreover have "distinct ?m" by simp
  moreover have "set ?m = R - set defined" using assms by auto
  moreover have "finite (R - set defined)" using assms by simp
  ultimately have "?m = sorted_list_of_set (R - set defined)"
    by (intro sorted_distinct_set_unique) simp_all
  then show ?thesis by (simp add: collect_missing_filter)
qed

lemma sorted_filter_keys: "sorted (filter P (sorted_keys h))"
  by (rule sorted_wrt_filter) (rule sorted_sorted_keys)

lemma check_locale_None:
  "locale_match l s = None \<Longrightarrow> check_locale l keys s = []"
  by (simp add: check_locale_def)

lemma check_locale_Some:
  assumes "locale_keys l s = Some defined"
  shows "check_locale l keys s =
     KeysFound l (length defined) #
     (if filter (\<lambda>key. key \<notin> set defined) keys \<noteq> []
      then MissingHeader l (length (filter (\<lambda>key. key \<notin> set defined) keys)) #
           map KeyLine (filter (\<lambda>key. key \<notin> set defined) keys)
      else [AllPresent l])"
  using assms
  by (auto simp: check_locale_def locale_keys_def collect_missing_filter Let_def
      split: option.splits)

lemma check_locale_lang:
  "KeysFound l n \<in> set (check_locale l' keys s) \<Longrightarrow> l = l'"
  "MissingHeader l n \<in> set (check_locale l' keys s) \<Longrightarrow> l = l'"
  "AllPresent l \<in> set (check_locale l' keys s) \<Longrightarrow> l = l'"
  by (auto simp: check_locale_def Let_def split: option.splits if_splits)

lemma main_lines:
  "set (main h s) = {Heading, TotalLine (length (sorted_keys h)), Checking} \<union>
     KeyLine ` set (sorted_keys h) \<union>
     set (check_locale EN (sorted_keys h) s) \<union>
     set (check_locale ES (sorted_keys h) s) \<union>
     set (check_locale PL (sorted_keys h) s)"
  by (auto simp: main_def Let_def)

lemma in_main_iff:
  "KeysFound l n \<in> set (main h s) \<longleftrightarrow> KeysFound l n \<in> set (check_locale l (sorted_keys h) s)"
  "MissingHeader l n \<in> set (main h s) \<longleftrightarrow>
     MissingHeader l n \<in> set (check_locale l (sorted_keys h) s)"
  "AllPresent l \<in> set (main h s) \<longleftrightarrow> AllPresent l \<in> set (check_locale l (sorted_keys h) s)"
  by (cases l; auto simp: main_lines dest: check_locale_lang)+

lemma all_present_iff:
  "AllPresent l \<in> set (main h s) \<longleftrightarrow> missing_keys l h s = Some []"
proof (cases "locale_keys l s")
  case None
  then have "locale_match l s = None" by (simp add: locale_keys_None_iff)
  then show ?thesis
    using None by (simp add: in_main_iff check_locale_None missing_keys_def)
next
  case (Some defined)
  then show ?thesis
    by (auto simp: in_main_iff check_locale_Some missing_keys_Some)
qed


lemma no_label_no_match:
  assumes "\<not> sublist (label l @ '':'') s"
  shows "locale_match l s = None"
proof (rule ccontr)
  assume "locale_match l s \<noteq> None"
  then obtain content where "locale_match l s = Some content" by auto
  from locale_match_SomeD [OF this] obtain pre ws post where
    "s = pre @ label l @ '':'' @ ws @ CHR ''{'' # content @ CHR ''}'' # post"
    by blast
  then have "s = pre @ (label l @ '':'') @ (ws @ CHR ''{'' # content @ CHR ''}'' # post)"
    by simp
  then have "sublist (label l @ '':'') s"
    unfolding sublist_def by blast
  with assms show False by simp
qed

lemma match_at_attr_iff:
  "match_at (map Chr lit @ [GOpen, Plus (Not q), GClose, Chr q]) s = Some (k, rest) \<longleftrightarrow>
     k \<noteq> [] \<and> q \<notin> set k \<and> s = lit @ k @ q # rest"
proof
  assume m: "match_at (map Chr lit @ [GOpen, Plus (Not q), GClose, Chr q]) s = Some (k, rest)"
  then have pre: "prefix lit s" and grp: "group_at (Not q) q (drop (length lit) s) = Some (k, rest)"
    by (auto simp: match_at_attr split: if_splits)
  from group_at_SomeD [OF grp] have d: "drop (length lit) s = k @ q # rest"
    and ne: "k \<noteq> []" and nq: "\<forall>x\<in>set k. in_cls (Not q) x"
    by auto
  from pre obtain t where "s = lit @ t" by (auto simp: prefix_def)
  with d have "s = lit @ k @ q # rest" by simp
  with ne nq show "k \<noteq> [] \<and> q \<notin> set k \<and> s = lit @ k @ q # rest" by auto
next
  assume a: "k \<noteq> [] \<and> q \<notin> set k \<and> s = lit @ k @ q # rest"
  then have "group_at (Not q) q (k @ q # rest) = Some (k, rest)"
    by (intro group_at_SomeI) auto
  with a show "match_at (map Chr lit @ [GOpen, Plus (Not q), GClose, Chr q]) s = Some (k, rest)"
    by (simp add: match_at_attr)
qed

lemma translate_match_iff:
  \<open>match_at translate_pattern s = Some (k, rest) \<longleftrightarrow>
     k \<noteq> [] \<and> CHR ''"'' \<notin> set k \<and> s = ''data-translate="'' @ k @ CHR ''"'' # rest\<close>
  unfolding translate_pattern_def by (rule match_at_attr_iff)

lemma placeholder_match_iff:
  \<open>match_at placeholder_pattern s = Some (k, rest) \<longleftrightarrow>
     k \<noteq> [] \<and> CHR ''"'' \<notin> set k \<and> s = ''data-translate-placeholder="'' @ k @ CHR ''"'' # rest\<close>
  unfolding placeholder_pattern_def by (rule match_at_attr_iff)

lemma re_findall_no_match:
  assumes "\<forall>s'. suffix s' s \<longrightarrow> match_at p s' = None"
  shows "re_findall p s = []"
proof (rule ccontr)
  assume "re_findall p s \<noteq> []"
  then obtain g where "g \<in> set (re_findall p s)" by (cases "re_findall p s") auto
  from re_findall_mem [OF this] assms show False by auto
qed

lemma unterminated_no_match:
  assumes "q \<notin> set v"
  shows "match_at (map Chr lit @ [GOpen, Plus (Not q), GClose, Chr q]) (lit @ v) = None"
proof (rule ccontr)
  assume "match_at (map Chr lit @ [GOpen, Plus (Not q), GClose, Chr q]) (lit @ v) \<noteq> None"
  then obtain k rest where
    "match_at (map Chr lit @ [GOpen, Plus (Not q), GClose, Chr q]) (lit @ v) = Some (k, rest)"
    by auto
  then have "lit @ v = lit @ k @ q # rest" by (simp add: match_at_attr_iff)
  then have "v = k @ q # rest" by simp
  with assms show False by simp
qed

lemma translate_unterminated:
  assumes \<open>CHR ''"'' \<notin> set v\<close>
  shows \<open>match_at translate_pattern (''data-translate="'' @ v) = None\<close>
  unfolding translate_pattern_def using assms by (rule unterminated_no_match)

lemma placeholder_unterminated:
  assumes \<open>CHR ''"'' \<notin> set v\<close>
  shows \<open>match_at placeholder_pattern (''data-translate-placeholder="'' @ v) = None\<close>
  unfolding placeholder_pattern_def using assms by (rule unterminated_no_match)

lemma plain_no_match:
  "\<forall>s'. suffix s' plain_markup \<longrightarrow>
     match_at translate_pattern s' = None \<and> match_at placeholder_pattern s' = None"
proof -
  have "re_search translate_pattern plain_markup = None"
    unfolding plain_markup_def by code_simp
  moreover have "re_search placeholder_pattern plain_markup = None"
    unfolding plain_markup_def by code_simp
  ultimately show ?thesis by (simp only: re_search_None_iff) blast
qed

lemma re_findall_skip:
  "match_at p (x # xs) = None \<Longrightarrow> re_findall p (x # xs) = re_findall p xs"
  by simp

lemma re_findall_hit:
  assumes "match_at p s = Some (g, rest)" and "length rest < length s"
  shows "re_findall p s = g # re_findall p rest"
  using assms by (cases s) simp_all

lemma re_findall_first:
  assumes "\<forall>i<length pre. match_at p (drop i (pre @ s')) = None"
    and "match_at p s' = Some (g, rest)" and "length rest < length s'"
  shows "re_findall p (pre @ s') = g # re_findall p rest"
  using assms(1)
proof (induction pre)
  case Nil
  show ?case using assms(2,3) by (simp add: re_findall_hit)
next
  case (Cons a pre)
  from Cons.prems have "match_at p (drop 0 ((a # pre) @ s')) = None" by blast
  then have skip: "re_findall p ((a # pre) @ s') = re_findall p (pre @ s')" by simp
  have "\<forall>i<length pre. match_at p (drop i (pre @ s')) = None"
  proof (intro allI impI)
    fix i assume "i < length pre"
    then have "Suc i < length (a # pre)" by simp
    with Cons.prems have "match_at p (drop (Suc i) ((a # pre) @ s')) = None" by blast
    then show "match_at p (drop i (pre @ s')) = None" by simp
  qed
  from Cons.IH [OF this] skip show ?case by simp
qed

lemma re_findall_Nil_iff:
  "re_findall p s = [] \<longleftrightarrow> (\<forall>s'. suffix s' s \<longrightarrow> match_at p s' = None)"
proof
  assume "\<forall>s'. suffix s' s \<longrightarrow> match_at p s' = None"
  then show "re_findall p s = []" by (rule re_findall_no_match)
next
  show "re_findall p s = [] \<Longrightarrow> \<forall>s'. suffix s' s \<longrightarrow> match_at p s' = None"
  proof (induction s)
    case Nil
    then show ?case by (cases "match_at p []") auto
  next
    case (Cons x xs)
    from Cons.prems have none: "match_at p (x # xs) = None"
      by (cases "match_at p (x # xs)") auto
    with Cons.prems have "re_findall p xs = []" by simp
    from Cons.IH [OF this] none show ?case by (auto simp: suffix_Cons)
  qed
qed








lemma attr_match_shorter:
  "match_at (map Chr lit @ [GOpen, Plus (Not q), GClose, Chr q]) s = Some (k, rest) \<Longrightarrow>
     length rest < length s"
  by (simp add: match_at_attr_iff)

lemma attr_scan_step:
  assumes "s = pre @ lit @ k @ q # rest" and "k \<noteq> []" and "q \<notin> set k"
    and "\<forall>i<length pre. match_at (map Chr lit @ [GOpen, Plus (Not q), GClose, Chr q]) (drop i s) = None"
  shows "re_findall (map Chr lit @ [GOpen, Plus (Not q), GClose, Chr q]) s =
           k # re_findall (map Chr lit @ [GOpen, Plus (Not q), GClose, Chr q]) rest"
proof -
  let ?p = "map Chr lit @ [GOpen, Plus (Not q), GClose, Chr q]"
  have m: "match_at ?p (lit @ k @ q # rest) = Some (k, rest)"
    using assms(2,3) by (simp add: match_at_attr_iff)
  have "re_findall ?p (pre @ (lit @ k @ q # rest)) = k # re_findall ?p rest"
    using assms(4) m unfolding assms(1) by (rule re_findall_first) simp
  then show ?thesis by (simp add: assms(1))
qed

lemma translate_scan_step:
  assumes \<open>s = pre @ ''data-translate="'' @ k @ CHR ''"'' # rest\<close> and "k \<noteq> []"
    and \<open>CHR ''"'' \<notin> set k\<close>
    and "\<forall>i<length pre. match_at translate_pattern (drop i s) = None"
  shows "translate_matches s = k # translate_matches rest"
  using assms unfolding translate_matches_def translate_pattern_def by (rule attr_scan_step)

lemma placeholder_scan_step:
  assumes \<open>s = pre @ ''data-translate-placeholder="'' @ k @ CHR ''"'' # rest\<close> and "k \<noteq> []"
    and \<open>CHR ''"'' \<notin> set k\<close>
    and "\<forall>i<length pre. match_at placeholder_pattern (drop i s) = None"
  shows "placeholder_matches s = k # placeholder_matches rest"
  using assms unfolding placeholder_matches_def placeholder_pattern_def by (rule attr_scan_step)

lemma all_keys_empty_iff:
  "all_keys h = {} \<longleftrightarrow>
     (\<forall>s'. suffix s' h \<longrightarrow>
        match_at translate_pattern s' = None \<and> match_at placeholder_pattern s' = None)"
proof -
  have "all_keys h = {} \<longleftrightarrow>
      re_findall translate_pattern h = [] \<and> re_findall placeholder_pattern h = []"
    by (simp add: all_keys_def translate_matches_def placeholder_matches_def)
  also have "\<dots> \<longleftrightarrow> (\<forall>s'. suffix s' h \<longrightarrow>
        match_at translate_pattern s' = None \<and> match_at placeholder_pattern s' = None)"
    unfolding re_findall_Nil_iff by blast
  finally show ?thesis .
qed

lemma empty_value_no_match:
  "match_at (map Chr lit @ [GOpen, Plus (Not q), GClose, Chr q]) (lit @ q # rest) = None"
proof (rule ccontr)
  assume "match_at (map Chr lit @ [GOpen, Plus (Not q), GClose, Chr q]) (lit @ q # rest) \<noteq> None"
  then obtain k r where
    "match_at (map Chr lit @ [GOpen, Plus (Not q), GClose, Chr q]) (lit @ q # rest) = Some (k, r)"
    by auto
  then have "k \<noteq> []" "q \<notin> set k" "lit @ q # rest = lit @ k @ q # r"
    by (simp_all add: match_at_attr_iff)
  then show False by (cases k) auto
qed

lemma translate_empty_value:
  \<open>match_at translate_pattern (''data-translate="'' @ CHR ''"'' # rest) = None\<close>
  unfolding translate_pattern_def by (rule empty_value_no_match)

lemma placeholder_empty_value:
  \<open>match_at placeholder_pattern (''data-translate-placeholder="'' @ CHR ''"'' # rest) = None\<close>
  unfolding placeholder_pattern_def by (rule empty_value_no_match)

section \<open>The claims\<close>

subsection \<open>The required keys\<close>

text \<open>
  Claim C9. An attribute whose quoted value is empty contributes no key: the empty string is
  never in the set of required keys, whatever the markup, because \<^verbatim>\<open>[^"]+\<close> needs at least
  one character between the quotes.
\<close>

theorem empty_string_never_required: "[] \<notin> all_keys html_content"
  using translate_matches_facts [of "[]" html_content]
    placeholder_matches_facts [of "[]" html_content]
  by (auto simp: all_keys_def)

subsection \<open>The scenario of the specification\<close>

lemma scenario_translate: "translate_matches scenario_markup = [''title'']"
  unfolding scenario_markup_def by code_simp

lemma scenario_placeholder: "placeholder_matches scenario_markup = [''search'']"
  unfolding scenario_markup_def by code_simp

lemma scenario_sorted: "sorted_keys scenario_markup = [''search'', ''title'']"
  unfolding scenario_markup_def by code_simp

lemma scenario_match: \<open>locale_match EN scenario_catalog = Some '' title: "Hello" ''\<close>
  unfolding scenario_catalog_def by code_simp

lemma scenario_keys: "locale_keys EN scenario_catalog = Some [''title'']"
  unfolding scenario_catalog_def by code_simp

lemma scenario_missing: "missing_keys EN scenario_markup scenario_catalog = Some [''search'']"
  unfolding scenario_catalog_def scenario_markup_def by code_simp

lemma scenario_main: "main scenario_markup scenario_catalog =
     [Heading, KeyLine ''search'', KeyLine ''title'', TotalLine 2, Checking,
      KeysFound EN 1, MissingHeader EN 1, KeyLine ''search'']"
  unfolding scenario_catalog_def scenario_markup_def by code_simp

text \<open>
  Claim C8. On the texts of the scenario the required keys are \<^verbatim>\<open>title\<close> and \<^verbatim>\<open>search\<close>,
  the keys defined for \<^verbatim>\<open>en\<close> are \<^verbatim>\<open>title\<close> alone, the missing list of \<^verbatim>\<open>en\<close> is
  \<^verbatim>\<open>search\<close> alone, and the script does not print that every key has an English
  translation.
\<close>

theorem scenario_title_search:
  "all_keys scenario_markup = {''title'', ''search''} \<and>
   locale_keys EN scenario_catalog = Some [''title''] \<and>
   missing_keys EN scenario_markup scenario_catalog = Some [''search''] \<and>
   AllPresent EN \<notin> set (main scenario_markup scenario_catalog)"
  by (simp add: all_keys_def scenario_translate scenario_placeholder scenario_keys
      scenario_missing scenario_main)

subsection \<open>The missing keys of a locale\<close>

text \<open>
  Claim C1. For a locale whose block is found, with \<open>defined\<close> the keys found in it, the
  missing list holds exactly the required keys that are not among the defined ones, so it
  lies within the required keys; it is sorted, has no key twice, follows the order of the
  sorted required keys, and is the sorted list of the difference of the two sets. The loop
  computes that sorted difference from the sorted list of any finite set of required keys.
\<close>

theorem missing_is_required_minus_defined:
  assumes "locale_keys l script_content = Some defined"
  shows "\<exists>missing. missing_keys l html_content script_content = Some missing \<and>
           set missing = all_keys html_content - set defined \<and>
           set missing \<subseteq> all_keys html_content \<and>
           sorted missing \<and> distinct missing \<and>
           subseq missing (sorted_keys html_content) \<and>
           missing = sorted_list_of_set (all_keys html_content - set defined) \<and>
           (\<forall>R. finite R \<longrightarrow>
              collect_missing (sorted_list_of_set R) defined [] =
                sorted_list_of_set (R - set defined))"
proof -
  let ?m = "filter (\<lambda>key. key \<notin> set defined) (sorted_keys html_content)"
  have m: "missing_keys l html_content script_content = Some ?m"
    using assms by (rule missing_keys_Some)
  have s: "set ?m = all_keys html_content - set defined"
    by (auto simp: set_sorted_keys)
  have so: "sorted ?m" by (rule sorted_filter_keys)
  have di: "distinct ?m" by (simp add: distinct_sorted_keys)
  have su: "subseq ?m (sorted_keys html_content)" by simp
  have fin: "finite (all_keys html_content - set defined)"
    by (simp add: finite_all_keys)
  have "?m = sorted_list_of_set (all_keys html_content - set defined)"
    using so di s fin by (intro sorted_distinct_set_unique) simp_all
  with m s so di su show ?thesis
    by (auto simp: collect_missing_sorted_list_of_set)
qed

theorem missing_is_required_minus_defined_witness:
  "locale_keys EN scenario_catalog = Some [''title''] \<and>
   missing_keys EN scenario_markup scenario_catalog = Some [''search''] \<and>
   set [''search''] = all_keys scenario_markup - set [''title''] \<and>
   sorted [''search''] \<and>
   [''search''] = sorted_list_of_set (all_keys scenario_markup - set [''title'']) \<and>
   finite {''title'', ''search''} \<and>
   collect_missing (sorted_list_of_set {''title'', ''search''}) [''title''] [] =
     sorted_list_of_set ({''title'', ''search''} - set [''title''])"
proof -
  from missing_is_required_minus_defined [OF scenario_keys, of scenario_markup]
  obtain missing where "missing_keys EN scenario_markup scenario_catalog = Some missing"
    and "set missing = all_keys scenario_markup - set [''title'']"
    and "sorted missing"
    and "missing = sorted_list_of_set (all_keys scenario_markup - set [''title''])"
    and any: "\<forall>R. finite R \<longrightarrow>
       collect_missing (sorted_list_of_set R) [''title''] [] =
         sorted_list_of_set (R - set [''title''])"
    by blast
  moreover from this(1) have "missing = [''search'']"
    by (simp add: scenario_missing)
  moreover have fin: "finite {''title'', ''search''}"
    by simp
  moreover from any fin
  have "collect_missing (sorted_list_of_set {''title'', ''search''}) [''title''] [] =
      sorted_list_of_set ({''title'', ''search''} - set [''title''])"
    by blast
  ultimately show ?thesis
    using scenario_keys by simp
qed

subsection \<open>The keys a locale defines\<close>

lemma hyphen_sorted: "sorted_keys hyphen_markup = [''nav-home'']"
  unfolding hyphen_markup_def by code_simp

lemma hyphen_missing:
  "missing_keys EN hyphen_markup scenario_catalog = Some [''nav-home'']"
  unfolding scenario_catalog_def hyphen_markup_def by code_simp

text \<open>
  Claim C10. Every key found in a locale's block is a nonempty run of word characters. So a
  required key with a character outside \<^verbatim>\<open>\w\<close> is not among the keys of any locale whose
  block is found, and it is in the missing list of that locale.
\<close>

theorem defined_keys_are_words:
  assumes "locale_keys l script_content = Some defined"
  shows "(\<forall>k\<in>set defined. k \<noteq> [] \<and> (\<forall>c\<in>set k. word_char c)) \<and>
         (\<forall>k\<in>all_keys html_content. (\<exists>c\<in>set k. \<not> word_char c) \<longrightarrow>
            k \<notin> set defined \<and>
            (\<exists>missing. missing_keys l html_content script_content = Some missing \<and>
               k \<in> set missing))"
proof -
  from assms obtain content where d: "defined = re_findall key_pattern content"
    by (auto simp: locale_keys_Some_iff)
  have words: "\<forall>k\<in>set defined. k \<noteq> [] \<and> (\<forall>c\<in>set k. word_char c)"
    using key_pattern_mem unfolding d by blast
  have "k \<notin> set defined \<and>
      (\<exists>missing. missing_keys l html_content script_content = Some missing \<and> k \<in> set missing)"
    if k: "k \<in> all_keys html_content" and c: "\<exists>c\<in>set k. \<not> word_char c" for k
  proof -
    from c words have "k \<notin> set defined" by blast
    with k show ?thesis
      by (simp add: missing_keys_Some [OF assms] set_sorted_keys)
  qed
  with words show ?thesis by blast
qed

theorem defined_keys_are_words_witness:
  "locale_keys EN scenario_catalog = Some [''title''] \<and>
   ''nav-home'' \<in> all_keys hyphen_markup \<and>
   \<not> word_char CHR ''-'' \<and>
   ''nav-home'' \<notin> set [''title''] \<and>
   missing_keys EN hyphen_markup scenario_catalog = Some [''nav-home'']"
proof -
  have k: "''nav-home'' \<in> all_keys hyphen_markup"
    by (simp add: set_sorted_keys [symmetric] hyphen_sorted)
  have c: "\<exists>c\<in>set ''nav-home''. \<not> word_char c"
    by (simp add: word_char_def)
  from defined_keys_are_words [OF scenario_keys, of hyphen_markup] k c
  have "''nav-home'' \<notin> set [''title'']" by blast
  moreover have "\<not> word_char CHR ''-''" by (simp add: word_char_def)
  ultimately show ?thesis
    using k scenario_keys hyphen_missing by simp
qed






subsection \<open>A locale whose block is not found\<close>

lemma spanish_only_match: "locale_match EN spanish_only_catalog = None"
  unfolding spanish_only_catalog_def by code_simp

lemma spanish_only_main:
  "main scenario_markup spanish_only_catalog =
     [Heading, KeyLine ''search'', KeyLine ''title'', TotalLine 2, Checking,
      KeysFound ES 1, MissingHeader ES 1, KeyLine ''search'']"
  unfolding spanish_only_catalog_def scenario_markup_def by code_simp

lemma spanish_only_sublist: "\<not> sublist ''en:'' spanish_only_catalog"
  unfolding spanish_only_catalog_def by code_simp

text \<open>
  Claim C3, as stated, asks that a locale whose label is not in the catalog has an empty set
  of defined keys and has every required key reported missing. The script does everything
  about a locale under \<^verbatim>\<open>if en_match:\<close>, with no \<^verbatim>\<open>else\<close>: when the search finds nothing
  there are no keys and no missing list, and nothing is printed for the locale. On the
  scenario's markup and a catalog with a Spanish block only, the lines printed are those of
  Spanish.
\<close>

theorem absent_block_all_missing_counterexample:
  "locale_match EN spanish_only_catalog = None \<and>
   sorted_keys scenario_markup = [''search'', ''title''] \<and>
   locale_keys EN spanish_only_catalog \<noteq> Some [] \<and>
   missing_keys EN scenario_markup spanish_only_catalog \<noteq> Some [''search'', ''title''] \<and>
   main scenario_markup spanish_only_catalog =
     [Heading, KeyLine ''search'', KeyLine ''title'', TotalLine 2, Checking,
      KeysFound ES 1, MissingHeader ES 1, KeyLine ''search'']"
  using spanish_only_match
  by (simp add: scenario_sorted spanish_only_main locale_keys_def missing_keys_def)

text \<open>
  Claim C3, amended. When a locale's label followed by a colon does not occur in the catalog,
  the search for its block finds nothing; and whenever the search finds nothing the script
  does not fail and skips the locale: it has no list of defined keys and no missing list for
  it, and prints no line about it, neither a number of keys found, nor missing keys, nor that
  all keys are translated.
\<close>

theorem absent_block_no_report:
  "(\<not> sublist (label l @ '':'') script_content \<longrightarrow> locale_match l script_content = None) \<and>
   (locale_match l script_content = None \<longrightarrow>
      locale_keys l script_content = None \<and>
      missing_keys l html_content script_content = None \<and>
      check_locale l (sorted_keys html_content) script_content = [] \<and>
      (\<forall>n. KeysFound l n \<notin> set (main html_content script_content) \<and>
           MissingHeader l n \<notin> set (main html_content script_content)) \<and>
      AllPresent l \<notin> set (main html_content script_content))"
  by (auto simp: no_label_no_match locale_keys_None_iff missing_keys_None_iff
      check_locale_None in_main_iff)

theorem absent_block_no_report_witness:
  "\<not> sublist (label EN @ '':'') spanish_only_catalog \<and>
   locale_match EN spanish_only_catalog = None \<and>
   locale_keys EN spanish_only_catalog = None \<and>
   missing_keys EN scenario_markup spanish_only_catalog = None \<and>
   check_locale EN (sorted_keys scenario_markup) spanish_only_catalog = [] \<and>
   AllPresent EN \<notin> set (main scenario_markup spanish_only_catalog)"
  using absent_block_no_report [of EN spanish_only_catalog scenario_markup]
    spanish_only_sublist
  by simp

subsection \<open>The report that a locale is complete\<close>

lemma empty_required: "all_keys [] = {}"
  by (simp add: all_keys_def translate_matches_def placeholder_matches_def
      translate_pattern_def placeholder_pattern_def match_at_def)

lemma spanish_only_empty_main:
  "main [] spanish_only_catalog = [Heading, TotalLine 0, Checking, KeysFound ES 1, AllPresent ES]"
  unfolding spanish_only_catalog_def by code_simp

text \<open>
  Claim C7, as stated, asks that with no required key every locale is reported complete,
  whatever the catalog. With an empty markup and the catalog that has a Spanish block only,
  the script reports Spanish complete and prints nothing about English.
\<close>

theorem empty_required_complete_counterexample:
  "all_keys [] = {} \<and>
   main [] spanish_only_catalog =
     [Heading, TotalLine 0, Checking, KeysFound ES 1, AllPresent ES] \<and>
   AllPresent EN \<notin> set (main [] spanish_only_catalog) \<and>
   missing_keys EN [] spanish_only_catalog \<noteq> Some []"
  using spanish_only_match
  by (simp add: empty_required spanish_only_empty_main missing_keys_def locale_keys_def)

text \<open>
  Claim C7, amended. The script prints that all keys of a locale are translated exactly when
  the locale has a missing list and that list is empty. When there is no required key, every
  locale whose block is found has an empty missing list and is reported complete; a locale
  whose block is not found is not reported complete.
\<close>

theorem complete_iff_missing_empty:
  "(AllPresent l \<in> set (main html_content script_content) \<longleftrightarrow>
      missing_keys l html_content script_content = Some []) \<and>
   (all_keys html_content = {} \<longrightarrow> locale_match l script_content \<noteq> None \<longrightarrow>
      missing_keys l html_content script_content = Some [] \<and>
      AllPresent l \<in> set (main html_content script_content)) \<and>
   (locale_match l script_content = None \<longrightarrow>
      AllPresent l \<notin> set (main html_content script_content))"
proof -
  have a: "AllPresent l \<in> set (main html_content script_content) \<longleftrightarrow>
      missing_keys l html_content script_content = Some []"
    by (rule all_present_iff)
  have b: "missing_keys l html_content script_content = Some []"
    if "all_keys html_content = {}" "locale_match l script_content \<noteq> None"
  proof -
    from that(2) obtain defined where "locale_keys l script_content = Some defined"
      by (auto simp: locale_keys_def)
    from missing_keys_Some [OF this, of html_content] that(1) show ?thesis
      by (simp add: sorted_keys_def)
  qed
  have c: "AllPresent l \<notin> set (main html_content script_content)"
    if "locale_match l script_content = None"
    using that by (simp add: a missing_keys_def locale_keys_def)
  from a b c show ?thesis by blast
qed

theorem complete_iff_missing_empty_witness:
  "all_keys [] = {} \<and>
   locale_match EN scenario_catalog \<noteq> None \<and>
   missing_keys EN [] scenario_catalog = Some [] \<and>
   AllPresent EN \<in> set (main [] scenario_catalog) \<and>
   locale_match EN spanish_only_catalog = None \<and>
   AllPresent EN \<notin> set (main [] spanish_only_catalog)"
proof -
  have m: "locale_match EN scenario_catalog \<noteq> None" by (simp add: scenario_match)
  from complete_iff_missing_empty [of EN "[]" scenario_catalog]
    complete_iff_missing_empty [of EN "[]" spanish_only_catalog]
    empty_required m spanish_only_match
  show ?thesis by blast
qed

subsection \<open>The block of a locale\<close>










lemma nested_match: \<open>locale_match EN nested_catalog = Some '' nav: { title: "Menu" ''\<close>
  unfolding nested_catalog_def by code_simp

lemma nested_keys: "locale_keys EN nested_catalog = Some [''nav'', ''title'']"
  unfolding nested_catalog_def by code_simp

lemma nested_later: \<open>re_findall key_pattern '', title: "Hello" }'' = [''title'']\<close>
  by code_simp

text \<open>
  Claim C2, as stated, asks that a key whose entry comes after a nested closing brace of its
  block is not among the defined keys. The keys are the matches of \<^verbatim>\<open>(\w+):\<close> anywhere
  before that brace, the keys of the nested object included: when the nested object has a key
  of the same name, the later key is among the defined keys.
\<close>

theorem later_key_defined_counterexample:
  \<open>locale_match EN nested_catalog = Some '' nav: { title: "Menu" '' \<and>
   nested_catalog = ''en: {'' @ '' nav: { title: "Menu" '' @ ''}'' @ '', title: "Hello" }'' \<and>
   re_findall key_pattern '', title: "Hello" }'' = [''title''] \<and>
   locale_keys EN nested_catalog = Some [''nav'', ''title''] \<and>
   ''title'' \<in> set [''nav'', ''title'']\<close>
proof -
  have e: \<open>nested_catalog = ''en: {'' @ '' nav: { title: "Menu" '' @ ''}'' @ '', title: "Hello" }''\<close>
    by (simp add: nested_catalog_def)
  have t: "''title'' \<in> set [''nav'', ''title'']" by simp
  show ?thesis
    by (intro conjI nested_match e nested_later nested_keys t)
qed

lemma truncated_match: \<open>locale_match EN truncated_catalog = Some '' nav: { home: "Home" ''\<close>
  unfolding truncated_catalog_def by code_simp

lemma truncated_keys: "locale_keys EN truncated_catalog = Some [''nav'', ''home'']"
  unfolding truncated_catalog_def by code_simp

lemma truncated_no_title: \<open>\<not> sublist ''title:'' '' nav: { home: "Home" ''\<close>
  by code_simp

text \<open>
  Claim C2, amended. When the block of a locale is found, the text scanned for its keys
  starts after the opening brace that follows the label and ends before the first closing
  brace after it, nested or not; the defined keys are the matches of \<^verbatim>\<open>(\w+):\<close> in that
  text alone. So a key whose entry comes after a nested closing brace is not among the
  defined keys, unless the key followed by a colon also occurs before that brace.
\<close>

theorem block_ends_at_first_closing_brace:
  assumes "locale_match l script_content = Some content"
  shows "(\<exists>pre ws post.
            script_content = pre @ label l @ '':'' @ ws @ CHR ''{'' # content @ CHR ''}'' # post \<and>
            (\<forall>x\<in>set ws. space_char x)) \<and>
         content \<noteq> [] \<and> CHR ''}'' \<notin> set content \<and>
         locale_keys l script_content = Some (re_findall key_pattern content) \<and>
         (\<forall>k. \<not> sublist (k @ '':'') content \<longrightarrow> k \<notin> set (re_findall key_pattern content))"
proof -
  from locale_match_SomeD [OF assms] obtain pre ws post where
    "script_content = pre @ label l @ '':'' @ ws @ CHR ''{'' # content @ CHR ''}'' # post"
    "\<forall>x\<in>set ws. space_char x" "content \<noteq> []" "CHR ''}'' \<notin> set content"
    by blast
  moreover have "locale_keys l script_content = Some (re_findall key_pattern content)"
    using assms by (simp add: locale_keys_def)
  moreover have "\<forall>k. \<not> sublist (k @ '':'') content \<longrightarrow> k \<notin> set (re_findall key_pattern content)"
    using key_pattern_sublist by blast
  ultimately show ?thesis by blast
qed

theorem block_ends_at_first_closing_brace_witness:
  \<open>locale_match EN truncated_catalog = Some '' nav: { home: "Home" '' \<and>
   CHR ''}'' \<notin> set '' nav: { home: "Home" '' \<and>
   locale_keys EN truncated_catalog = Some [''nav'', ''home''] \<and>
   \<not> sublist ''title:'' '' nav: { home: "Home" '' \<and>
   ''title'' \<notin> set [''nav'', ''home'']\<close>
proof -
  from block_ends_at_first_closing_brace [OF truncated_match] truncated_no_title
  have \<open>CHR ''}'' \<notin> set '' nav: { home: "Home" ''\<close>
    and \<open>''title'' \<notin> set (re_findall key_pattern '' nav: { home: "Home" '')\<close>
    by auto
  then show ?thesis
    using truncated_match truncated_keys truncated_no_title by simp
qed

subsection \<open>The required keys, from both attributes\<close>

lemma swallowing_translate:
  "translate_matches swallowing_markup = [''abc><b data-translate='']"
  unfolding swallowing_markup_def by code_simp

lemma swallowing_placeholder: "placeholder_matches swallowing_markup = []"
  unfolding swallowing_markup_def by code_simp

lemma swallowing_split:
  \<open>swallowing_markup = ''<a data-translate="abc><b '' @ ''data-translate="def">''\<close>
  by (simp add: swallowing_markup_def)

lemma swallowing_def_matches:
  \<open>match_at translate_pattern ''data-translate="def">'' = Some (''def'', ''>'')\<close>
  by code_simp

text \<open>
  Claim C6, as stated, asks that an attribute that is not terminated contributes no key and
  that the set is the union of the quoted values of both attributes. Where the closing quote
  of an attribute is missing and a later quote exists, \<^verbatim>\<open>[^"]+\<close> runs on to that quote: the
  attribute contributes the text up to it as a key. The scan resumes after that quote, so the
  well-formed attribute whose opening quote it was contributes no key, although the pattern
  matches at its position.
\<close>

theorem unterminated_attribute_counterexample:
  \<open>swallowing_markup = ''<a data-translate="abc><b '' @ ''data-translate="def">'' \<and>
   match_at translate_pattern ''data-translate="def">'' = Some (''def'', ''>'') \<and>
   translate_matches swallowing_markup = [''abc><b data-translate=''] \<and>
   placeholder_matches swallowing_markup = [] \<and>
   all_keys swallowing_markup = {''abc><b data-translate=''} \<and>
   ''def'' \<notin> all_keys swallowing_markup\<close>
proof -
  have k: "all_keys swallowing_markup = {''abc><b data-translate=''}"
    by (simp add: all_keys_def swallowing_translate swallowing_placeholder)
  have n: "''def'' \<notin> all_keys swallowing_markup"
    unfolding k by simp
  show ?thesis
    by (intro conjI swallowing_split swallowing_def_matches swallowing_translate
        swallowing_placeholder k n)
qed

text \<open>
  Claim C6, amended. The required keys are the union of the values that the two scans of the
  markup find, one for each attribute, as one set; the sorted list has each of them once. The
  set is empty exactly when no position of the markup has a match of either pattern, and
  nothing fails: the functions are total. Every required key is the group of a match at some
  position. Each scan reports the leftmost match and resumes after its closing quote: when
  the markup has a match at a position and none before it, the scan returns its value,
  followed by what it finds in the rest. A pattern matches at a position exactly when the
  text there is the attribute's name, an equals sign and a quote, then a nonempty value
  without a quote, then a quote. So an attribute with an empty value gives no match at its
  position, and neither does one with no quote anywhere after its opening quote.
\<close>

theorem required_keys_are_scanned_matches:
  \<open>all_keys html_content =
     set (translate_matches html_content) \<union> set (placeholder_matches html_content) \<and>
   set (sorted_keys html_content) = all_keys html_content \<and>
   distinct (sorted_keys html_content) \<and>
   (all_keys html_content = {} \<longleftrightarrow>
      (\<forall>s'. suffix s' html_content \<longrightarrow>
         match_at translate_pattern s' = None \<and> match_at placeholder_pattern s' = None)) \<and>
   (\<forall>k\<in>all_keys html_content. \<exists>s' rest. suffix s' html_content \<and>
      (match_at translate_pattern s' = Some (k, rest) \<or>
       match_at placeholder_pattern s' = Some (k, rest))) \<and>
   (\<forall>pre k rest.
      html_content = pre @ ''data-translate="'' @ k @ CHR ''"'' # rest \<and> k \<noteq> [] \<and>
      CHR ''"'' \<notin> set k \<and>
      (\<forall>i<length pre. match_at translate_pattern (drop i html_content) = None) \<longrightarrow>
      translate_matches html_content = k # translate_matches rest) \<and>
   (\<forall>pre k rest.
      html_content = pre @ ''data-translate-placeholder="'' @ k @ CHR ''"'' # rest \<and> k \<noteq> [] \<and>
      CHR ''"'' \<notin> set k \<and>
      (\<forall>i<length pre. match_at placeholder_pattern (drop i html_content) = None) \<longrightarrow>
      placeholder_matches html_content = k # placeholder_matches rest) \<and>
   (\<forall>s k rest. match_at translate_pattern s = Some (k, rest) \<longleftrightarrow>
      k \<noteq> [] \<and> CHR ''"'' \<notin> set k \<and> s = ''data-translate="'' @ k @ CHR ''"'' # rest) \<and>
   (\<forall>s k rest. match_at placeholder_pattern s = Some (k, rest) \<longleftrightarrow>
      k \<noteq> [] \<and> CHR ''"'' \<notin> set k \<and>
      s = ''data-translate-placeholder="'' @ k @ CHR ''"'' # rest) \<and>
   (\<forall>rest.
      match_at translate_pattern (''data-translate="'' @ CHR ''"'' # rest) = None \<and>
      match_at placeholder_pattern (''data-translate-placeholder="'' @ CHR ''"'' # rest) = None) \<and>
   (\<forall>v. CHR ''"'' \<notin> set v \<longrightarrow>
      match_at translate_pattern (''data-translate="'' @ v) = None \<and>
      match_at placeholder_pattern (''data-translate-placeholder="'' @ v) = None)\<close>
proof -
  have c1: "all_keys html_content =
      set (translate_matches html_content) \<union> set (placeholder_matches html_content)"
    by (simp add: all_keys_def)
  have c2: "set (sorted_keys html_content) = all_keys html_content"
    by (rule set_sorted_keys)
  have c3: "distinct (sorted_keys html_content)"
    by (rule distinct_sorted_keys)
  have c4: "all_keys html_content = {} \<longleftrightarrow>
      (\<forall>s'. suffix s' html_content \<longrightarrow>
         match_at translate_pattern s' = None \<and> match_at placeholder_pattern s' = None)"
    by (rule all_keys_empty_iff)
  have c5: "\<forall>k\<in>all_keys html_content. \<exists>s' rest. suffix s' html_content \<and>
      (match_at translate_pattern s' = Some (k, rest) \<or>
       match_at placeholder_pattern s' = Some (k, rest))"
  proof
    fix k assume "k \<in> all_keys html_content"
    then have "k \<in> set (re_findall translate_pattern html_content) \<or>
        k \<in> set (re_findall placeholder_pattern html_content)"
      by (simp add: all_keys_def translate_matches_def placeholder_matches_def)
    then show "\<exists>s' rest. suffix s' html_content \<and>
      (match_at translate_pattern s' = Some (k, rest) \<or>
       match_at placeholder_pattern s' = Some (k, rest))"
      using re_findall_mem [of k translate_pattern html_content]
        re_findall_mem [of k placeholder_pattern html_content]
      by blast
  qed
  have c6: \<open>\<forall>pre k rest.
      html_content = pre @ ''data-translate="'' @ k @ CHR ''"'' # rest \<and> k \<noteq> [] \<and>
      CHR ''"'' \<notin> set k \<and>
      (\<forall>i<length pre. match_at translate_pattern (drop i html_content) = None) \<longrightarrow>
      translate_matches html_content = k # translate_matches rest\<close>
    by (intro allI impI) (elim conjE, rule translate_scan_step)
  have c7: \<open>\<forall>pre k rest.
      html_content = pre @ ''data-translate-placeholder="'' @ k @ CHR ''"'' # rest \<and> k \<noteq> [] \<and>
      CHR ''"'' \<notin> set k \<and>
      (\<forall>i<length pre. match_at placeholder_pattern (drop i html_content) = None) \<longrightarrow>
      placeholder_matches html_content = k # placeholder_matches rest\<close>
    by (intro allI impI) (elim conjE, rule placeholder_scan_step)
  have c8: \<open>\<forall>s k rest. match_at translate_pattern s = Some (k, rest) \<longleftrightarrow>
      k \<noteq> [] \<and> CHR ''"'' \<notin> set k \<and> s = ''data-translate="'' @ k @ CHR ''"'' # rest\<close>
    by (intro allI) (rule translate_match_iff)
  have c9: \<open>\<forall>s k rest. match_at placeholder_pattern s = Some (k, rest) \<longleftrightarrow>
      k \<noteq> [] \<and> CHR ''"'' \<notin> set k \<and>
      s = ''data-translate-placeholder="'' @ k @ CHR ''"'' # rest\<close>
    by (intro allI) (rule placeholder_match_iff)
  have c10: \<open>\<forall>rest.
      match_at translate_pattern (''data-translate="'' @ CHR ''"'' # rest) = None \<and>
      match_at placeholder_pattern (''data-translate-placeholder="'' @ CHR ''"'' # rest) = None\<close>
    by (intro allI conjI) (rule translate_empty_value, rule placeholder_empty_value)
  have c11: \<open>\<forall>v. CHR ''"'' \<notin> set v \<longrightarrow>
      match_at translate_pattern (''data-translate="'' @ v) = None \<and>
      match_at placeholder_pattern (''data-translate-placeholder="'' @ v) = None\<close>
    by (intro allI impI conjI) (erule translate_unterminated, erule placeholder_unterminated)
  show ?thesis
    by (intro conjI c1 c2 c3 c4 c5 c6 c7 c8 c9 c10 c11)
qed

lemma scenario_no_earlier_match:
  "\<forall>i<length ''<h1 ''. match_at translate_pattern (drop i scenario_markup) = None"
proof (intro allI impI)
  fix i :: nat assume "i < length ''<h1 ''"
  then have i: "i = 0 \<or> i = 1 \<or> i = 2 \<or> i = 3" by auto
  have d0: "match_at translate_pattern (drop 0 scenario_markup) = None"
    unfolding scenario_markup_def by code_simp
  have d1: "match_at translate_pattern (drop 1 scenario_markup) = None"
    unfolding scenario_markup_def by code_simp
  have d2: "match_at translate_pattern (drop 2 scenario_markup) = None"
    unfolding scenario_markup_def by code_simp
  have d3: "match_at translate_pattern (drop 3 scenario_markup) = None"
    unfolding scenario_markup_def by code_simp
  from i show "match_at translate_pattern (drop i scenario_markup) = None"
    using d0 d1 d2 d3 by (elim disjE) (simp_all only:)
qed

lemma scenario_split:
  \<open>scenario_markup =
     ''<h1 '' @ ''data-translate="'' @ ''title'' @
     CHR ''"'' # ''></h1><input data-translate-placeholder="search">''\<close>
  by (simp add: scenario_markup_def)

theorem required_keys_are_scanned_matches_witness:
  \<open>translate_matches scenario_markup =
     ''title'' # translate_matches ''></h1><input data-translate-placeholder="search">'' \<and>
   all_keys scenario_markup = set [''title''] \<union> set [''search''] \<and>
   distinct (sorted_keys scenario_markup) \<and>
   all_keys plain_markup = {} \<and>
   CHR ''"'' \<notin> set ''title>'' \<and>
   match_at translate_pattern (''data-translate="'' @ ''title>'') = None \<and>
   match_at translate_pattern (''data-translate="'' @ CHR ''"'' # ''>'') = None\<close>
proof -
  note a = required_keys_are_scanned_matches [of scenario_markup]
  note b = required_keys_are_scanned_matches [of plain_markup]
  have q: \<open>CHR ''"'' \<notin> set ''title>''\<close> by simp
  from a have \<open>\<forall>pre k rest.
      scenario_markup = pre @ ''data-translate="'' @ k @ CHR ''"'' # rest \<and> k \<noteq> [] \<and>
      CHR ''"'' \<notin> set k \<and>
      (\<forall>i<length pre. match_at translate_pattern (drop i scenario_markup) = None) \<longrightarrow>
      translate_matches scenario_markup = k # translate_matches rest\<close>
    by (elim conjE)
  then have \<open>scenario_markup = ''<h1 '' @ ''data-translate="'' @ ''title'' @
        CHR ''"'' # ''></h1><input data-translate-placeholder="search">'' \<and>
      ''title'' \<noteq> [] \<and> CHR ''"'' \<notin> set ''title'' \<and>
      (\<forall>i<length ''<h1 ''. match_at translate_pattern (drop i scenario_markup) = None) \<longrightarrow>
      translate_matches scenario_markup =
        ''title'' # translate_matches ''></h1><input data-translate-placeholder="search">''\<close>
    by (elim allE)
  moreover have \<open>''title'' \<noteq> [] \<and> CHR ''"'' \<notin> set ''title''\<close> by simp
  ultimately have w0: \<open>translate_matches scenario_markup =
      ''title'' # translate_matches ''></h1><input data-translate-placeholder="search">''\<close>
    using scenario_split scenario_no_earlier_match by (elim impE conjE) (intro conjI)
  from a have "all_keys scenario_markup =
      set (translate_matches scenario_markup) \<union> set (placeholder_matches scenario_markup)"
    by (rule conjunct1)
  then have w1: "all_keys scenario_markup = set [''title''] \<union> set [''search'']"
    by (simp only: scenario_translate scenario_placeholder)
  from a have w2: "distinct (sorted_keys scenario_markup)"
    by (elim conjE)
  from b have "all_keys plain_markup = {} \<longleftrightarrow>
      (\<forall>s'. suffix s' plain_markup \<longrightarrow>
        match_at translate_pattern s' = None \<and> match_at placeholder_pattern s' = None)"
    by (elim conjE)
  with plain_no_match have w3: "all_keys plain_markup = {}"
    by (rule rev_iffD2)
  from a have \<open>\<forall>v. CHR ''"'' \<notin> set v \<longrightarrow>
      match_at translate_pattern (''data-translate="'' @ v) = None \<and>
      match_at placeholder_pattern (''data-translate-placeholder="'' @ v) = None\<close>
    by (elim conjE)
  then have \<open>CHR ''"'' \<notin> set ''title>'' \<longrightarrow>
      match_at translate_pattern (''data-translate="'' @ ''title>'') = None \<and>
      match_at placeholder_pattern (''data-translate-placeholder="'' @ ''title>'') = None\<close>
    by (rule spec)
  with q have w5: \<open>match_at translate_pattern (''data-translate="'' @ ''title>'') = None\<close>
    by (elim impE conjE)
  from a have \<open>\<forall>rest.
      match_at translate_pattern (''data-translate="'' @ CHR ''"'' # rest) = None \<and>
      match_at placeholder_pattern (''data-translate-placeholder="'' @ CHR ''"'' # rest) = None\<close>
    by (elim conjE)
  then have \<open>match_at translate_pattern (''data-translate="'' @ CHR ''"'' # ''>'') = None \<and>
      match_at placeholder_pattern (''data-translate-placeholder="'' @ CHR ''"'' # ''>'') = None\<close>
    by (rule spec)
  then have w6: \<open>match_at translate_pattern (''data-translate="'' @ CHR ''"'' # ''>'') = None\<close>
    by (rule conjunct1)
  show ?thesis
    by (intro conjI w0 w1 w2 w3 q w5 w6)
qed

end
